theory Spec2Isabelle
  imports Main "HOL-Library.Word" "HOL-Library.Sublist"
begin

section \<open>Strings\<close>

text \<open>
  A JavaScript string is a sequence of 16-bit code units. Literals are written through
  \<open>js\<close>, which reads an ASCII literal as its code units.
\<close>

type_synonym jschar = "16 word"
type_synonym jsstring = "jschar list"

definition js :: "string \<Rightarrow> jsstring" where
  "js s = map of_char s"

text \<open>
  The character class \<open>\<bsol>s\<close> of a regular expression, which is also the set that
  \<open>String.prototype.trim\<close> removes: the white space and line terminator code points.
\<close>

definition is_space :: "jschar \<Rightarrow> bool" where
  "is_space c \<longleftrightarrow>
     c = 0x09 \<or> c = 0x0A \<or> c = 0x0B \<or> c = 0x0C \<or> c = 0x0D \<or> c = 0x20 \<or>
     c = 0xA0 \<or> c = 0x1680 \<or> (0x2000 \<le> c \<and> c \<le> 0x200A) \<or>
     c = 0x2028 \<or> c = 0x2029 \<or> c = 0x202F \<or> c = 0x205F \<or> c = 0x3000 \<or> c = 0xFEFF"

definition is_lower :: "jschar \<Rightarrow> bool" where
  "is_lower c \<longleftrightarrow> 0x61 \<le> c \<and> c \<le> 0x7A"

definition is_upper :: "jschar \<Rightarrow> bool" where
  "is_upper c \<longleftrightarrow> 0x41 \<le> c \<and> c \<le> 0x5A"

definition is_digit :: "jschar \<Rightarrow> bool" where
  "is_digit c \<longleftrightarrow> 0x30 \<le> c \<and> c \<le> 0x39"

text \<open>
  Matching under the flag \<open>i\<close> (without \<open>u\<close>) compares canonical forms; a pattern of ASCII
  letters is matched by those letters in either case and by nothing else, so the
  comparison is made on the ASCII lower-case form.
\<close>

definition to_lower :: "jschar \<Rightarrow> jschar" where
  "to_lower c = (if is_upper c then c + 0x20 else c)"

text \<open>\<open>s.replace(/\<bsol>s+/g, ' ')\<close>: every maximal run of white space becomes one space.\<close>

function collapse :: "jsstring \<Rightarrow> jsstring" where
  "collapse [] = []"
| "collapse (c # cs) =
     (if is_space c then 0x20 # collapse (dropWhile is_space cs) else c # collapse cs)"
  by pat_completeness auto
termination
  by (relation "measure length") (auto simp: le_imp_less_Suc length_dropWhile_le)

text \<open>\<open>s.trim()\<close>\<close>

definition trim :: "jsstring \<Rightarrow> jsstring" where
  "trim s = rev (dropWhile is_space (rev (dropWhile is_space s)))"

section \<open>The parsed document\<close>

text \<open>
  The nodes of the tree the parser hands over. A text node and a comment hold their
  character data; an element holds its tag name, its attributes and its children.
  \<open>Untagged\<close> stands for the remaining node types, which have no \<open>tagName\<close>: the
  document root, a CDATA section, a directive (whose absent children are the empty list).
\<close>

datatype node =
    Text jsstring
  | Comment jsstring
  | Element jsstring "(jsstring \<times> jsstring) list" "node list"
  | Untagged "node list"

text \<open>
  The handle \<open>$\<close>: \<open>$.root()\<close> holds the root node, and \<open>$(selector)\<close> is the sequence of
  matched elements in document order.
\<close>

record CheerioAPI =
  root :: node
  select :: "jsstring \<Rightarrow> node list"

text \<open>\<open>$(el).attr(name)\<close> on one node; \<open>None\<close> is \<open>undefined\<close>.\<close>

fun attr :: "node \<Rightarrow> jsstring \<Rightarrow> jsstring option" where
  "attr (Element tagName attribs children) name = map_of attribs name"
| "attr _ name = None"

text \<open>\<open>$(selector).attr(name)\<close> on a selection reads the first matched element only.\<close>

fun attr_first :: "node list \<Rightarrow> jsstring \<Rightarrow> jsstring option" where
  "attr_first [] name = None"
| "attr_first (el # els) name = attr el name"

text \<open>
  The elements a type selector (a bare tag name) matches: every element of that name,
  in document order. \<open>load_tags\<close> is the handle of a parsed tree for such selectors.
\<close>

fun by_tag :: "jsstring \<Rightarrow> node \<Rightarrow> node list"
  and by_tag_list :: "jsstring \<Rightarrow> node list \<Rightarrow> node list" where
  "by_tag t (Text d) = []"
| "by_tag t (Comment d) = []"
| "by_tag t (Element tagName attribs children) =
     (if tagName = t then [Element tagName attribs children] else []) @ by_tag_list t children"
| "by_tag t (Untagged children) = by_tag_list t children"
| "by_tag_list t [] = []"
| "by_tag_list t (n # ns) = by_tag t n @ by_tag_list t ns"

definition load_tags :: "node \<Rightarrow> CheerioAPI" where
  "load_tags doc = \<lparr>root = doc, select = (\<lambda>s. by_tag s doc)\<rparr>"

section \<open>htmlToText\<close>

definition SKIP_TAGS_REGEX :: "jsstring \<Rightarrow> bool" where
  "SKIP_TAGS_REGEX tagName \<longleftrightarrow>
     map to_lower tagName \<in> set (map js [''script'', ''style'', ''canvas'', ''svg'', ''noscript''])"

definition BLOCK_TAGS_REGEX :: "jsstring \<Rightarrow> bool" where
  "BLOCK_TAGS_REGEX tagName \<longleftrightarrow>
     map to_lower tagName \<in> set (map js
       [''p'', ''h1'', ''h2'', ''h3'', ''h4'', ''h5'', ''h6'', ''ol'', ''ul'', ''li'', ''pre'',
        ''address'', ''blockquote'', ''dl'', ''div'', ''fieldset'', ''form'', ''table'', ''tr'',
        ''select'', ''option''])"

text \<open>\<open>/(^|\<bsol>s)$/.test(text)\<close>, \<open>/(^|\<bsol>n)$/.test(text)\<close> and \<open>text.endsWith('\<bsol>n')\<close>\<close>

definition empty_or_ends_space :: "jsstring \<Rightarrow> bool" where
  "empty_or_ends_space text \<longleftrightarrow> text = [] \<or> is_space (last text)"

definition empty_or_ends_newline :: "jsstring \<Rightarrow> bool" where
  "empty_or_ends_newline text \<longleftrightarrow> text = [] \<or> last text = 0x0A"

definition ends_newline :: "jsstring \<Rightarrow> bool" where
  "ends_newline text \<longleftrightarrow> text \<noteq> [] \<and> last text = 0x0A"

text \<open>\<open>compr.startsWith(' ')\<close>\<close>

definition starts_space :: "jsstring \<Rightarrow> bool" where
  "starts_space s \<longleftrightarrow> (case s of [] \<Rightarrow> False | c # cs \<Rightarrow> c = 0x20)"

text \<open>
  The text a text node contributes: its data, compressed unless the parent's tag name is
  \<open>pre\<close>, without its leading space where the text so far is empty or ends in white space.
\<close>

definition compr :: "jsstring option \<Rightarrow> jsstring \<Rightarrow> jsstring" where
  "compr parent data = (if parent = Some (js ''pre'') then data else collapse data)"

definition chunk :: "jsstring option \<Rightarrow> jsstring \<Rightarrow> jsstring \<Rightarrow> jsstring" where
  "chunk parent text data =
     (let c = compr parent data
      in if starts_space c \<and> empty_or_ends_space text then drop 1 c else c)"

text \<open>
  The closure \<open>process\<close>, with the variable \<open>text\<close> it updates passed in and returned.
  \<open>parent\<close> is the tag name of the node whose children are being processed.
\<close>

fun process :: "jsstring option \<Rightarrow> node list \<Rightarrow> jsstring \<Rightarrow> jsstring"
  and process_elem :: "jsstring option \<Rightarrow> node \<Rightarrow> jsstring \<Rightarrow> jsstring" where
  "process parent [] text = text"
| "process parent (elem # elems) text = process parent elems (process_elem parent elem text)"
| "process_elem parent (Text d) text = text @ chunk parent text d"
| "process_elem parent (Comment d) text = text"
| "process_elem parent (Element tagName attribs children) text =
     (if SKIP_TAGS_REGEX tagName then text
      else if tagName = js ''br'' then text @ [0x0A]
      else if tagName = js ''td'' then process (Some tagName) children text @ [0x09]
      else
        let isBlockTag = BLOCK_TAGS_REGEX tagName;
            text1 = (if isBlockTag \<and> \<not> empty_or_ends_newline text then text @ [0x0A] else text);
            text2 = process (Some tagName) children text1
        in if isBlockTag \<and> \<not> ends_newline text2 then text2 @ [0x0A] else text2)"
| "process_elem parent (Untagged children) text = process None children text"

text \<open>The nodes the conversion starts from: the \<open>body\<close> elements, or else the root.\<close>

definition start_nodes :: "CheerioAPI \<Rightarrow> node list" where
  "start_nodes dollar =
     (let body = select dollar (js ''body'') in if length body > 0 then body else [root dollar])"

text \<open>The variable \<open>text\<close> when \<open>process\<close> has returned, before it is trimmed.\<close>

definition accumulated :: "CheerioAPI \<Rightarrow> jsstring" where
  "accumulated dollar = process None (start_nodes dollar) []"

text \<open>
  The argument is markup or a handle. Markup goes through \<open>cheerio.load\<close>, the external
  parser, which is a parameter here.
\<close>

datatype htmlOrCheerio = Html jsstring | Cheerio CheerioAPI

definition htmlToText :: "(jsstring \<Rightarrow> CheerioAPI) \<Rightarrow> htmlOrCheerio \<Rightarrow> jsstring" where
  "htmlToText cheerio_load htmlOrCheerioElement =
     (case htmlOrCheerioElement of
        Html s \<Rightarrow> if s = [] then [] else trim (accumulated (cheerio_load s))
      | Cheerio dollar \<Rightarrow> trim (accumulated dollar))"

section \<open>extractUrlsFromCheerio\<close>

text \<open>\<open>new Error(message)\<close>\<close>

datatype error = Error jsstring

text \<open>
  \<open>tryAbsoluteURL\<close>, the URL resolution utility, is a parameter of the model: it returns the
  absolute URL of a reference against a base, or \<open>undefined\<close> (\<open>None\<close>).
\<close>

type_synonym resolver = "jsstring \<Rightarrow> jsstring \<Rightarrow> jsstring option"

text \<open>\<open>Boolean(v)\<close> on a string or \<open>undefined\<close>, and \<open>.filter(Boolean)\<close>\<close>

definition truthy :: "jsstring option \<Rightarrow> bool" where
  "truthy v = (case v of None \<Rightarrow> False | Some s \<Rightarrow> s \<noteq> [])"

fun filter_Boolean :: "jsstring option list \<Rightarrow> jsstring list" where
  "filter_Boolean [] = []"
| "filter_Boolean (v # vs) =
     (case v of None \<Rightarrow> filter_Boolean vs
      | Some s \<Rightarrow> if s \<noteq> [] then s # filter_Boolean vs else filter_Boolean vs)"

text \<open>
  \<open>/^[a-z][a-z0-9+.-]*:/.test(href)\<close>. The colon is outside the character class, so the
  match is decided by one scan: after the first letter, class characters are consumed and
  the first character outside the class has to be the colon.
\<close>

definition scheme_char :: "jschar \<Rightarrow> bool" where
  "scheme_char c \<longleftrightarrow> is_lower c \<or> is_digit c \<or> c = 0x2B \<or> c = 0x2E \<or> c = 0x2D"

fun scheme_tail :: "jsstring \<Rightarrow> bool" where
  "scheme_tail [] = False"
| "scheme_tail (c # cs) = (if scheme_char c then scheme_tail cs else c = 0x3A)"

definition isHrefAbsolute :: "jsstring \<Rightarrow> bool" where
  "isHrefAbsolute href = (case href of [] \<Rightarrow> False | c # cs \<Rightarrow> is_lower c \<and> scheme_tail cs)"

definition relative_url_error :: "jsstring \<Rightarrow> error" where
  "relative_url_error href =
     Error (js ''An extracted URL: '' @ href @ js '' is relative and baseUrl is not set. '' @
            js ''Provide a baseUrl to automatically resolve relative URLs.'')"

text \<open>The base URL in force after the \<open>base\<close> element has been looked at.\<close>

definition effectiveBaseUrl :: "resolver \<Rightarrow> CheerioAPI \<Rightarrow> jsstring \<Rightarrow> jsstring" where
  "effectiveBaseUrl tryAbsoluteURL dollar baseUrl =
     (let base = attr_first (select dollar (js ''base'')) (js ''href'');
          absoluteBaseUrl = (if truthy base then tryAbsoluteURL (the base) baseUrl else base)
      in if truthy absoluteBaseUrl then the absoluteBaseUrl else baseUrl)"

text \<open>
  \<open>$(selector).map((_i, el) => $(el).attr('href')).get().filter(Boolean)\<close>: the mapping of
  a selection leaves out \<open>undefined\<close>, the filter leaves out the empty string.
\<close>

definition hrefs :: "CheerioAPI \<Rightarrow> jsstring \<Rightarrow> jsstring list" where
  "hrefs dollar selector =
     filter (\<lambda>h. h \<noteq> []) (List.map_filter (\<lambda>el. attr el (js ''href'')) (select dollar selector))"

text \<open>The callback of the second \<open>map\<close>: it throws, or returns a string or \<open>undefined\<close>.\<close>

definition resolve_href :: "resolver \<Rightarrow> jsstring \<Rightarrow> jsstring \<Rightarrow> error + jsstring option" where
  "resolve_href tryAbsoluteURL baseUrl href =
     (if \<not> isHrefAbsolute href \<and> baseUrl = [] then Inl (relative_url_error href)
      else Inr (if baseUrl \<noteq> [] then tryAbsoluteURL href baseUrl else Some href))"

text \<open>\<open>Array.prototype.map\<close> with a callback that may throw: the first throw ends the call.\<close>

fun map_throwing :: "('a \<Rightarrow> error + 'b) \<Rightarrow> 'a list \<Rightarrow> error + 'b list" where
  "map_throwing f [] = Inr []"
| "map_throwing f (x # xs) =
     (case f x of
        Inl e \<Rightarrow> Inl e
      | Inr y \<Rightarrow> (case map_throwing f xs of Inl e \<Rightarrow> Inl e | Inr ys \<Rightarrow> Inr (y # ys)))"

definition resolve_all :: "resolver \<Rightarrow> jsstring \<Rightarrow> jsstring list \<Rightarrow> error + jsstring list" where
  "resolve_all tryAbsoluteURL baseUrl hs =
     (case map_throwing (resolve_href tryAbsoluteURL baseUrl) hs of
        Inl e \<Rightarrow> Inl e
      | Inr vs \<Rightarrow> Inr (filter_Boolean vs))"

text \<open>
  The default values \<open>'a'\<close> and \<open>''\<close> of \<open>selector\<close> and \<open>baseUrl\<close> are for the caller to pass.
\<close>

definition extractUrlsFromCheerio ::
    "resolver \<Rightarrow> CheerioAPI \<Rightarrow> jsstring \<Rightarrow> jsstring \<Rightarrow> error + jsstring list" where
  "extractUrlsFromCheerio tryAbsoluteURL dollar selector baseUrl =
     resolve_all tryAbsoluteURL (effectiveBaseUrl tryAbsoluteURL dollar baseUrl) (hrefs dollar selector)"

text \<open>
  An excerpt of the URL resolution utility for the concrete runs below: on the listed
  pairs of reference and base it returns what \<open>new URL(href, baseUrl).href\<close> is, and
  \<open>undefined\<close> elsewhere.
\<close>

definition url_excerpt :: resolver where
  "url_excerpt href baseUrl = map_of
     [((js ''https://x.com'', js ''https://example.com/''), js ''https://x.com/''),
      ((js ''mailto:a@b.com'', js ''https://example.com/''), js ''mailto:a@b.com''),
      ((js ''/x'', js ''https://example.com/''), js ''https://example.com/x''),
      ((js ''https://other.com/'', js ''https://example.com/''), js ''https://other.com/''),
      ((js ''/x'', js ''https://other.com/''), js ''https://other.com/x'')]
     (href, baseUrl)"

section \<open>Notions the properties are stated with\<close>

text \<open>The tag names of the elements of a tree, in document order.\<close>

fun tag_names :: "node \<Rightarrow> jsstring list"
  and tag_names_list :: "node list \<Rightarrow> jsstring list" where
  "tag_names (Text d) = []"
| "tag_names (Comment d) = []"
| "tag_names (Element tagName attribs children) = tagName # tag_names_list children"
| "tag_names (Untagged children) = tag_names_list children"
| "tag_names_list [] = []"
| "tag_names_list (n # ns) = tag_names n @ tag_names_list ns"

text \<open>The character data of the text nodes of a tree, in document order.\<close>

fun text_data :: "node \<Rightarrow> jsstring list"
  and text_data_list :: "node list \<Rightarrow> jsstring list" where
  "text_data (Text d) = [d]"
| "text_data (Comment d) = []"
| "text_data (Element tagName attribs children) = text_data_list children"
| "text_data (Untagged children) = text_data_list children"
| "text_data_list [] = []"
| "text_data_list (n # ns) = text_data n @ text_data_list ns"

text \<open>
  The text nodes the traversal reaches (those outside skipped elements and outside
  \<open>br\<close>), in document order, each with the tag name of its parent and with the value the
  variable \<open>text\<close> has when the node is reached. The traversal is that of \<open>process\<close>; the
  text is passed on as \<open>process\<close> passes it on.
\<close>

fun reached_at :: "jsstring option \<Rightarrow> node list \<Rightarrow> jsstring \<Rightarrow> (jsstring option \<times> jsstring \<times> jsstring) list"
  and reached_at_elem :: "jsstring option \<Rightarrow> node \<Rightarrow> jsstring \<Rightarrow> (jsstring option \<times> jsstring \<times> jsstring) list" where
  "reached_at parent [] text = []"
| "reached_at parent (elem # elems) text =
     reached_at_elem parent elem text @ reached_at parent elems (process_elem parent elem text)"
| "reached_at_elem parent (Text d) text = [(parent, d, text)]"
| "reached_at_elem parent (Comment d) text = []"
| "reached_at_elem parent (Element tagName attribs children) text =
     (if SKIP_TAGS_REGEX tagName \<or> tagName = js ''br'' then []
      else if tagName = js ''td'' then reached_at (Some tagName) children text
      else reached_at (Some tagName) children
        (if BLOCK_TAGS_REGEX tagName \<and> \<not> empty_or_ends_newline text then text @ [0x0A] else text))"
| "reached_at_elem parent (Untagged children) text = reached_at None children text"

text \<open>
  A tag is plain when the traversal does nothing but descend at an element of that tag:
  it is outside the block set and the skip set, and is neither \<open>br\<close> nor \<open>td\<close>.
\<close>

definition plain_tag :: "jsstring \<Rightarrow> bool" where
  "plain_tag t \<longleftrightarrow>
     \<not> BLOCK_TAGS_REGEX t \<and> \<not> SKIP_TAGS_REGEX t \<and> t \<noteq> js ''br'' \<and> t \<noteq> js ''td''"

text \<open>A string without its leading space, if it has one.\<close>

definition drop_space :: "jsstring \<Rightarrow> jsstring" where
  "drop_space s = (if starts_space s then drop 1 s else s)"

text \<open>
  The compression as a scanner that remembers whether the previous character was white
  space; \<open>collapse\<close> is the scanner started outside white space.
\<close>

fun scan :: "bool \<Rightarrow> jsstring \<Rightarrow> jsstring" where
  "scan b [] = []"
| "scan b (c # cs) =
     (if is_space c then (if b then scan True cs else 0x20 # scan True cs) else c # scan False cs)"

text \<open>
  The leading-scheme pattern in the words of the specification, for a given notion of
  letter: a letter, then letters, digits, plus, dot or minus, then a colon.
\<close>

definition leading_scheme :: "(jschar \<Rightarrow> bool) \<Rightarrow> jsstring \<Rightarrow> bool" where
  "leading_scheme letter href \<longleftrightarrow>
     (\<exists>c s rest. href = c # s @ 0x3A # rest \<and> letter c \<and>
        (\<forall>x \<in> set s. letter x \<or> is_digit x \<or> x = 0x2B \<or> x = 0x2E \<or> x = 0x2D))"

definition is_letter :: "jschar \<Rightarrow> bool" where
  "is_letter c \<longleftrightarrow> is_lower c \<or> is_upper c"

section \<open>Concrete documents\<close>

definition anchor :: "jsstring \<Rightarrow> node" where
  "anchor href = Element (js ''a'') [(js ''href'', href)] []"

definition page :: "node list \<Rightarrow> node list \<Rightarrow> node" where
  "page head_nodes body_nodes =
     Untagged [Element (js ''html'') []
       [Element (js ''head'') [] head_nodes, Element (js ''body'') [] body_nodes]]"

text \<open>
  The markup \<open><table><tr><td>A</td><td>B</td></tr></table>\<close> as an HTML5 parser builds it
  (with \<open>html\<close>, \<open>head\<close>, \<open>body\<close> and \<open>tbody\<close> supplied), and as a parser that adds nothing
  builds it.
\<close>

definition table_row :: node where
  "table_row = Element (js ''tr'') []
     [Element (js ''td'') [] [Text (js ''A'')], Element (js ''td'') [] [Text (js ''B'')]]"

definition table_html5 :: node where
  "table_html5 = page [] [Element (js ''table'') [] [Element (js ''tbody'') [] [table_row]]]"

definition table_plain :: node where
  "table_plain = Untagged [Element (js ''table'') [] [table_row]]"

definition table_markup :: jsstring where
  "table_markup = js ''<table><tr><td>A</td><td>B</td></tr></table>''"

text \<open>
  An excerpt of the external parser for the concrete runs below: the markup above is
  parsed as an HTML5 parser does, anything else stands for the empty document.
\<close>

definition parser_excerpt :: "jsstring \<Rightarrow> CheerioAPI" where
  "parser_excerpt html = load_tags (if html = table_markup then table_html5 else Untagged [])"

text \<open>\<open><div>x</div><pre> a</pre>\<close>\<close>

definition pre_doc :: node where
  "pre_doc = page []
     [Element (js ''div'') [] [Text (js ''x'')], Element (js ''pre'') [] [Text (js '' a'')]]"

text \<open>\<open><pre>a  b<i>x</i> c  d</pre><p> e  f</p>\<close>\<close>

definition pre_mix_doc :: node where
  "pre_mix_doc = page []
     [Element (js ''pre'') []
        [Text (js ''a  b''), Element (js ''i'') [] [Text (js ''x'')], Text (js '' c  d'')],
      Element (js ''p'') [] [Text (js '' e  f'')]]"

text \<open>\<open><p>a</p><br><br><p>b</p>\<close>\<close>

definition br_pair_doc :: node where
  "br_pair_doc = page []
     [Element (js ''p'') [] [Text (js ''a'')], Element (js ''br'') [] [], Element (js ''br'') [] [],
      Element (js ''p'') [] [Text (js ''b'')]]"

text \<open>\<open><div><div><p>a</p></div></div><p>b</p>\<close>\<close>

definition nested_doc :: node where
  "nested_doc = page []
     [Element (js ''div'') [] [Element (js ''div'') [] [Element (js ''p'') [] [Text (js ''a'')]]],
      Element (js ''p'') [] [Text (js ''b'')]]"

text \<open>\<open>a<br>b\<close>, and \<open><span> a </span><b> b</b>\<close> under a title, both without block elements\<close>

definition br_doc :: node where
  "br_doc = Untagged [Text (js ''a''), Element (js ''br'') [] [], Text (js ''b'')]"

definition inline_doc :: node where
  "inline_doc = page [Element (js ''title'') [] [Text (js ''T'')]]
     [Element (js ''span'') [] [Text (js '' a '')], Element (js ''b'') [] [Text (js '' b'')]]"

text \<open>Documents of links.\<close>

definition abs_doc :: node where
  "abs_doc = page [] [anchor (js ''https://x.com'')]"

definition links_doc :: node where
  "links_doc = page []
     [anchor (js ''mailto:a@b.com''), anchor (js ''/x''), Element (js ''a'') [] [], anchor []]"

definition rel_doc :: node where
  "rel_doc = page [] [anchor (js ''mailto:a@b.com''), anchor (js ''/x'')]"

definition two_rel_doc :: node where
  "two_rel_doc = page [] [anchor (js ''/x''), anchor (js ''/y'')]"

definition no_href_doc :: node where
  "no_href_doc = page [] [Element (js ''a'') [] [], anchor []]"

definition base_doc :: node where
  "base_doc = page [Element (js ''base'') [(js ''href'', js ''https://other.com/'')] []]
     [anchor (js ''/x'')]"

definition bad_base_doc :: node where
  "bad_base_doc = page [Element (js ''base'') [(js ''href'', js ''http://'')] []]
     [anchor (js ''/x'')]"

definition two_base_doc :: node where
  "two_base_doc = page
     [Element (js ''base'') [(js ''target'', js ''_blank'')] [],
      Element (js ''base'') [(js ''href'', js ''https://other.com/'')] []]
     [anchor (js ''/x'')]"

section \<open>Evaluation of concrete runs\<close>

lemmas doc_defs = page_def anchor_def js_def load_tags_def

lemmas link_defs = extractUrlsFromCheerio_def resolve_all_def effectiveBaseUrl_def hrefs_def
  resolve_href_def url_excerpt_def isHrefAbsolute_def is_lower_def scheme_char_def is_digit_def

lemmas text_defs = htmlToText_def accumulated_def start_nodes_def SKIP_TAGS_REGEX_def
  BLOCK_TAGS_REGEX_def to_lower_def is_upper_def chunk_def compr_def starts_space_def
  empty_or_ends_space_def empty_or_ends_newline_def ends_newline_def trim_def is_space_def

section \<open>The link extractor\<close>

subsection \<open>Mapping with a callback that may throw\<close>

lemma map_throwing_Inr:
  "(\<And>x. x \<in> set xs \<Longrightarrow> f x = Inr (g x)) \<Longrightarrow> map_throwing f xs = Inr (map g xs)"
  by (induction xs) simp_all

lemma map_throwing_split:
  "(\<And>y. y \<in> set ys \<Longrightarrow> \<not> isl (f y)) \<Longrightarrow> f x = Inl e \<Longrightarrow> map_throwing f (ys @ x # zs) = Inl e"
proof (induction ys)
  case Nil
  then show ?case by simp
next
  case (Cons y ys)
  from Cons.prems(1) [of y] obtain v where "f y = Inr v"
    by (cases "f y") simp_all
  with Cons show ?case by simp
qed

lemma map_throwing_Inl_find:
  "map_throwing f xs = Inl e \<Longrightarrow> \<exists>x. find (\<lambda>x. isl (f x)) xs = Some x \<and> f x = Inl e"
  by (induction xs) (auto split: sum.splits)

lemma truthy_Some [simp]: "truthy (Some s) \<longleftrightarrow> s \<noteq> []"
  by (simp add: truthy_def)

lemma truthy_None [simp]: "\<not> truthy None"
  by (simp add: truthy_def)

lemma effectiveBaseUrl_nonempty:
  "baseUrl \<noteq> [] \<Longrightarrow> effectiveBaseUrl R dollar baseUrl \<noteq> []"
  by (auto simp: effectiveBaseUrl_def Let_def truthy_def split: option.splits)

lemma resolve_all_nonempty:
  "b \<noteq> [] \<Longrightarrow> resolve_all R b hs = Inr (filter_Boolean (map (\<lambda>h. R h b) hs))"
  by (simp add: resolve_all_def resolve_href_def map_throwing_Inr [where g = "\<lambda>h. R h b"])

lemma isl_resolve_href:
  "isl (resolve_href R b h) \<longleftrightarrow> \<not> isHrefAbsolute h \<and> b = []"
  by (simp add: resolve_href_def)

lemma hrefs_iff:
  "h \<in> set (hrefs dollar selector) \<longleftrightarrow>
     h \<noteq> [] \<and> (\<exists>el \<in> set (select dollar selector). attr el (js ''href'') = Some h)"
  by (force simp: hrefs_def List.map_filter_def)

subsection \<open>The test for an absolute reference\<close>

lemma not_scheme_char_colon: "\<not> scheme_char 0x3A"
  by (simp add: scheme_char_def is_lower_def is_digit_def)

lemma scheme_tail_iff:
  "scheme_tail cs \<longleftrightarrow> (\<exists>s rest. cs = s @ 0x3A # rest \<and> (\<forall>x \<in> set s. scheme_char x))"
proof
  show "scheme_tail cs \<Longrightarrow> \<exists>s rest. cs = s @ 0x3A # rest \<and> (\<forall>x \<in> set s. scheme_char x)"
  proof (induction cs)
    case Nil
    then show ?case by simp
  next
    case (Cons c cs)
    show ?case
    proof (cases "scheme_char c")
      case True
      with Cons obtain s rest where "cs = s @ 0x3A # rest" "\<forall>x \<in> set s. scheme_char x"
        by auto
      with True have "c # cs = (c # s) @ 0x3A # rest \<and> (\<forall>x \<in> set (c # s). scheme_char x)"
        by simp
      then show ?thesis by blast
    next
      case False
      with Cons.prems have "c # cs = [] @ 0x3A # cs \<and> (\<forall>x \<in> set []. scheme_char x)"
        by simp
      then show ?thesis by blast
    qed
  qed
next
  assume "\<exists>s rest. cs = s @ 0x3A # rest \<and> (\<forall>x \<in> set s. scheme_char x)"
  then obtain s rest where "cs = s @ 0x3A # rest" "\<forall>x \<in> set s. scheme_char x"
    by blast
  then show "scheme_tail cs"
    by (induction s arbitrary: cs) (simp_all add: not_scheme_char_colon)
qed

text \<open>
  Claim C7, amended. A reference is classified as absolute if and only if it begins with a
  lower-case ASCII letter, followed by zero or more lower-case ASCII letters, digits,
  plus, dot or minus characters, followed by a colon. The pattern has no flag \<open>i\<close>.
\<close>

theorem isHrefAbsolute_lower_scheme: "isHrefAbsolute href \<longleftrightarrow> leading_scheme is_lower href"
proof (cases href)
  case Nil
  then show ?thesis by (simp add: isHrefAbsolute_def leading_scheme_def)
next
  case (Cons c cs)
  have "leading_scheme is_lower (c # cs) \<longleftrightarrow>
      is_lower c \<and> (\<exists>s rest. cs = s @ 0x3A # rest \<and> (\<forall>x \<in> set s. scheme_char x))"
    by (auto simp: leading_scheme_def scheme_char_def)
  with Cons show ?thesis
    by (simp add: isHrefAbsolute_def scheme_tail_iff)
qed

theorem isHrefAbsolute_lower_scheme_witness:
  "isHrefAbsolute (js ''mailto:a@b.com'') \<and> leading_scheme is_lower (js ''mailto:a@b.com'') \<and>
   \<not> isHrefAbsolute (js ''/x'') \<and> \<not> leading_scheme is_lower (js ''/x'')"
  using isHrefAbsolute_lower_scheme [of "js ''mailto:a@b.com''"] isHrefAbsolute_lower_scheme [of "js ''/x''"]
  by (simp add: js_def isHrefAbsolute_def is_lower_def scheme_char_def is_digit_def)

text \<open>
  With an upper-case letter counted as a letter the equivalence fails: \<open>HTTP://x.com\<close>
  begins with letters and a colon, and is classified as not absolute.
\<close>

theorem upper_scheme_not_absolute:
  "leading_scheme is_letter (js ''HTTP://x.com'') \<and> \<not> isHrefAbsolute (js ''HTTP://x.com'')"
proof
  have "js ''HTTP://x.com'' = 0x48 # js ''TTP'' @ 0x3A # js ''//x.com''"
    by (simp add: js_def)
  moreover have "is_letter 0x48"
    by (simp add: is_letter_def is_upper_def)
  moreover have "\<forall>x \<in> set (js ''TTP''). is_letter x \<or> is_digit x \<or> x = 0x2B \<or> x = 0x2E \<or> x = 0x2D"
    by (simp add: js_def is_letter_def is_upper_def)
  ultimately show "leading_scheme is_letter (js ''HTTP://x.com'')"
    unfolding leading_scheme_def by blast
  show "\<not> isHrefAbsolute (js ''HTTP://x.com'')"
    by (simp add: js_def isHrefAbsolute_def is_lower_def)
qed


subsection \<open>Resolution of the links\<close>

text \<open>
  Claim C1, amended. For every handle, selector and non-empty \<open>baseUrl\<close> the call returns
  a sequence, which holds for every non-empty reference of a matched element, absolute or
  not and in the order of the elements, what the URL resolution utility returns for it
  against the base URL in force; references for which the utility returns nothing or the
  empty string are left out. An absolute reference is thus in the result as the string
  the utility makes of it.
\<close>

theorem absolute_href_resolved_against_base:
  "baseUrl \<noteq> [] \<Longrightarrow>
   extractUrlsFromCheerio tryAbsoluteURL dollar selector baseUrl =
     Inr (filter_Boolean (map (\<lambda>href. tryAbsoluteURL href (effectiveBaseUrl tryAbsoluteURL dollar baseUrl))
            (hrefs dollar selector)))"
  by (simp add: extractUrlsFromCheerio_def resolve_all_nonempty effectiveBaseUrl_nonempty)

theorem absolute_href_resolved_against_base_witness:
  "js ''https://example.com/'' \<noteq> [] \<and>
   extractUrlsFromCheerio url_excerpt (load_tags links_doc) (js ''a'') (js ''https://example.com/'') =
     Inr [js ''mailto:a@b.com'', js ''https://example.com/x'']"
  using absolute_href_resolved_against_base [of "js ''https://example.com/''" url_excerpt "load_tags links_doc" "js ''a''"]
  by (simp add: links_doc_def doc_defs link_defs)

text \<open>
  The absolute reference \<open>https://x.com\<close> does not come out unchanged when a base URL is
  given: the utility returns it with a path.
\<close>

theorem absolute_href_not_unchanged:
  "isHrefAbsolute (js ''https://x.com'') \<and>
   js ''https://x.com'' \<in> set (hrefs (load_tags abs_doc) (js ''a'')) \<and>
   extractUrlsFromCheerio url_excerpt (load_tags abs_doc) (js ''a'') (js ''https://example.com/'') =
     Inr [js ''https://x.com/'']"
  by (simp add: abs_doc_def doc_defs link_defs)

text \<open>
  Claim C2, amended. If the base URL in force is empty and a matched element has a
  non-empty reference that is not absolute, the call fails and returns no sequence; the
  error names the first non-empty reference, in the order of the matched elements, that
  is not absolute.
\<close>

theorem relative_href_without_base_fails:
  assumes "effectiveBaseUrl tryAbsoluteURL dollar baseUrl = []"
    and "el \<in> set (select dollar selector)"
    and "attr el (js ''href'') = Some href" and "href \<noteq> []" and "\<not> isHrefAbsolute href"
  shows "\<exists>earlier first later.
      hrefs dollar selector = earlier @ first # later \<and>
      (\<forall>h \<in> set earlier. isHrefAbsolute h) \<and> \<not> isHrefAbsolute first \<and>
      extractUrlsFromCheerio tryAbsoluteURL dollar selector baseUrl =
        Inl (Error (js ''An extracted URL: '' @ first @
          js '' is relative and baseUrl is not set. Provide a baseUrl to automatically resolve relative URLs.''))"
proof -
  from assms have "href \<in> set (hrefs dollar selector)"
    by (auto simp: hrefs_iff)
  with assms(5) have "\<exists>h \<in> set (hrefs dollar selector). \<not> isHrefAbsolute h"
    by blast
  then obtain earlier first later where s: "hrefs dollar selector = earlier @ first # later"
    and f: "\<not> isHrefAbsolute first" and e: "\<forall>h \<in> set earlier. \<not> \<not> isHrefAbsolute h"
    using split_list_first_prop [of "hrefs dollar selector" "\<lambda>h. \<not> isHrefAbsolute h"] by blast
  from e have "\<not> isl (resolve_href tryAbsoluteURL [] y)" if "y \<in> set earlier" for y
    using that by (simp add: isl_resolve_href)
  moreover from f have "resolve_href tryAbsoluteURL [] first = Inl (relative_url_error first)"
    by (simp add: resolve_href_def)
  ultimately have "map_throwing (resolve_href tryAbsoluteURL []) (earlier @ first # later) =
      Inl (relative_url_error first)"
    by (rule map_throwing_split)
  with s assms(1) have "extractUrlsFromCheerio tryAbsoluteURL dollar selector baseUrl =
      Inl (relative_url_error first)"
    by (simp add: extractUrlsFromCheerio_def resolve_all_def)
  then have "extractUrlsFromCheerio tryAbsoluteURL dollar selector baseUrl =
        Inl (Error (js ''An extracted URL: '' @ first @
          js '' is relative and baseUrl is not set. Provide a baseUrl to automatically resolve relative URLs.''))"
    by (simp add: relative_url_error_def js_def)
  with s f e show ?thesis by auto
qed

theorem relative_href_without_base_fails_witness:
  "effectiveBaseUrl url_excerpt (load_tags rel_doc) [] = [] \<and>
   anchor (js ''/x'') \<in> set (select (load_tags rel_doc) (js ''a'')) \<and>
   attr (anchor (js ''/x'')) (js ''href'') = Some (js ''/x'') \<and> \<not> isHrefAbsolute (js ''/x'') \<and>
   hrefs (load_tags rel_doc) (js ''a'') = [js ''mailto:a@b.com'', js ''/x''] \<and>
   isHrefAbsolute (js ''mailto:a@b.com'') \<and>
   extractUrlsFromCheerio url_excerpt (load_tags rel_doc) (js ''a'') [] =
     Inl (Error (js ''An extracted URL: /x is relative and baseUrl is not set. Provide a baseUrl to automatically resolve relative URLs.''))"
  using relative_href_without_base_fails [of url_excerpt "load_tags rel_doc" "[]" "anchor (js ''/x'')" "js ''a''" "js ''/x''"]
  by (simp add: rel_doc_def doc_defs link_defs relative_url_error_def)

text \<open>
  With the two relative references \<open>/x\<close> and \<open>/y\<close>, in this order, the error names \<open>/x\<close>:
  the element with \<open>/y\<close> meets the conditions and is not the one named.
\<close>

theorem error_names_first_relative_href:
  "effectiveBaseUrl url_excerpt (load_tags two_rel_doc) [] = [] \<and>
   anchor (js ''/y'') \<in> set (select (load_tags two_rel_doc) (js ''a'')) \<and>
   attr (anchor (js ''/y'')) (js ''href'') = Some (js ''/y'') \<and> \<not> isHrefAbsolute (js ''/y'') \<and>
   extractUrlsFromCheerio url_excerpt (load_tags two_rel_doc) (js ''a'') [] =
     Inl (Error (js ''An extracted URL: /x is relative and baseUrl is not set. Provide a baseUrl to automatically resolve relative URLs.'')) \<and>
   extractUrlsFromCheerio url_excerpt (load_tags two_rel_doc) (js ''a'') [] \<noteq>
     Inl (Error (js ''An extracted URL: /y is relative and baseUrl is not set. Provide a baseUrl to automatically resolve relative URLs.''))"
  by (simp add: two_rel_doc_def doc_defs link_defs relative_url_error_def)


text \<open>
  Claim C9. A failure of the call comes from a matched element whose reference is present,
  non-empty and not absolute. When every matched element has no reference or the empty
  one, the call returns the empty sequence, whatever the base URL.
\<close>

theorem empty_href_discarded:
  "(extractUrlsFromCheerio tryAbsoluteURL dollar selector baseUrl = Inl err \<longrightarrow>
      (\<exists>el \<in> set (select dollar selector). \<exists>href. attr el (js ''href'') = Some href \<and> href \<noteq> [] \<and>
          \<not> isHrefAbsolute href \<and> err = relative_url_error href)) \<and>
   ((\<forall>el \<in> set (select dollar selector). attr el (js ''href'') = None \<or> attr el (js ''href'') = Some []) \<longrightarrow>
      extractUrlsFromCheerio tryAbsoluteURL dollar selector baseUrl = Inr [])"
proof (intro conjI impI)
  assume "extractUrlsFromCheerio tryAbsoluteURL dollar selector baseUrl = Inl err"
  then have "map_throwing (resolve_href tryAbsoluteURL (effectiveBaseUrl tryAbsoluteURL dollar baseUrl))
      (hrefs dollar selector) = Inl err"
    by (simp add: extractUrlsFromCheerio_def resolve_all_def split: sum.splits)
  then obtain h where "find (\<lambda>x. isl (resolve_href tryAbsoluteURL (effectiveBaseUrl tryAbsoluteURL dollar baseUrl) x))
      (hrefs dollar selector) = Some h"
    and e: "resolve_href tryAbsoluteURL (effectiveBaseUrl tryAbsoluteURL dollar baseUrl) h = Inl err"
    using map_throwing_Inl_find by blast
  then have "h \<in> set (hrefs dollar selector)"
    by (auto simp: find_Some_iff)
  moreover from e have "\<not> isHrefAbsolute h \<and> err = relative_url_error h"
    by (auto simp: resolve_href_def split: if_splits)
  ultimately show "\<exists>el \<in> set (select dollar selector). \<exists>href. attr el (js ''href'') = Some href \<and> href \<noteq> [] \<and>
          \<not> isHrefAbsolute href \<and> err = relative_url_error href"
    by (auto simp: hrefs_iff)
next
  assume "\<forall>el \<in> set (select dollar selector). attr el (js ''href'') = None \<or> attr el (js ''href'') = Some []"
  then have "h \<notin> set (hrefs dollar selector)" for h
    unfolding hrefs_iff by auto
  then have "hrefs dollar selector = []"
    by (cases "hrefs dollar selector") auto
  then show "extractUrlsFromCheerio tryAbsoluteURL dollar selector baseUrl = Inr []"
    by (simp add: extractUrlsFromCheerio_def resolve_all_def)
qed

theorem empty_href_discarded_witness:
  "select (load_tags no_href_doc) (js ''a'') = [Element (js ''a'') [] [], anchor []] \<and>
   attr (Element (js ''a'') [] []) (js ''href'') = None \<and>
   attr (anchor []) (js ''href'') = Some [] \<and>
   extractUrlsFromCheerio url_excerpt (load_tags no_href_doc) (js ''a'') [] = Inr []"
  using empty_href_discarded [of url_excerpt "load_tags no_href_doc" "js ''a''" "[]"]
  by (simp add: no_href_doc_def doc_defs)

text \<open>
  Claim C8, amended. When the first \<open>base\<close> element of the document has a non-empty
  reference: if the utility resolves it against the caller's \<open>baseUrl\<close> to a non-empty
  URL, the links are resolved against that URL; if the utility returns nothing, the links
  are resolved against the caller's \<open>baseUrl\<close>, as without a \<open>base\<close> element.
\<close>

theorem base_override:
  assumes "select dollar (js ''base'') = el # els"
    and "attr el (js ''href'') = Some base" and "base \<noteq> []"
  shows "(\<forall>absoluteBaseUrl. tryAbsoluteURL base baseUrl = Some absoluteBaseUrl \<and> absoluteBaseUrl \<noteq> [] \<longrightarrow>
            extractUrlsFromCheerio tryAbsoluteURL dollar selector baseUrl =
              resolve_all tryAbsoluteURL absoluteBaseUrl (hrefs dollar selector)) \<and>
         (tryAbsoluteURL base baseUrl = None \<longrightarrow>
            extractUrlsFromCheerio tryAbsoluteURL dollar selector baseUrl =
              resolve_all tryAbsoluteURL baseUrl (hrefs dollar selector))"
  using assms by (simp add: extractUrlsFromCheerio_def effectiveBaseUrl_def)


theorem base_override_witness:
  "extractUrlsFromCheerio url_excerpt (load_tags base_doc) (js ''a'') (js ''https://example.com/'') =
     Inr [js ''https://other.com/x''] \<and>
   extractUrlsFromCheerio url_excerpt (load_tags bad_base_doc) (js ''a'') (js ''https://example.com/'') =
     Inr [js ''https://example.com/x'']"
  using base_override [of "load_tags base_doc" "Element (js ''base'') [(js ''href'', js ''https://other.com/'')] []" "[]"
        "js ''https://other.com/''" url_excerpt "js ''https://example.com/''" "js ''a''"]
    base_override [of "load_tags bad_base_doc" "Element (js ''base'') [(js ''href'', js ''http://'')] []" "[]"
        "js ''http://''" url_excerpt "js ''https://example.com/''" "js ''a''"]
  by (simp add: base_doc_def bad_base_doc_def doc_defs link_defs)

text \<open>
  A \<open>base\<close> element with a reference that is not the first \<open>base\<close> element is not looked
  at: the link is resolved against the caller's \<open>baseUrl\<close>.
\<close>

theorem second_base_ignored:
  "Element (js ''base'') [(js ''href'', js ''https://other.com/'')] []
     \<in> set (select (load_tags two_base_doc) (js ''base'')) \<and>
   url_excerpt (js ''https://other.com/'') (js ''https://example.com/'') = Some (js ''https://other.com/'') \<and>
   resolve_all url_excerpt (js ''https://other.com/'') (hrefs (load_tags two_base_doc) (js ''a'')) =
     Inr [js ''https://other.com/x''] \<and>
   extractUrlsFromCheerio url_excerpt (load_tags two_base_doc) (js ''a'') (js ''https://example.com/'') =
     Inr [js ''https://example.com/x'']"
  by (simp add: two_base_doc_def doc_defs link_defs)

section \<open>The text extractor\<close>

subsection \<open>The accumulated text only grows\<close>

lemma process_append: "process p (xs @ ys) t = process p ys (process p xs t)"
  by (induction xs arbitrary: t) simp_all

lemma process_elem_Element:
  "process_elem p (Element tagName attribs children) t =
     (if SKIP_TAGS_REGEX tagName then t
      else if tagName = js ''br'' then t @ [0x0A]
      else if tagName = js ''td'' then process (Some tagName) children t @ [0x09]
      else if BLOCK_TAGS_REGEX tagName then
        (let t2 = process (Some tagName) children (if empty_or_ends_newline t then t else t @ [0x0A])
         in if ends_newline t2 then t2 else t2 @ [0x0A])
      else process (Some tagName) children t)"
  by (simp add: Let_def)

lemma process_extends:
  "\<exists>s. process p ns t = t @ s"
  "\<exists>s. process_elem p n t = t @ s"
proof (induction p ns t and p n t rule: process_process_elem.induct)
  case (2 parent elem elems acc)
  then show ?case by (metis append.assoc process.simps(2))
next
  case (5 parent tagName attribs children acc)
  show ?case
  proof (cases "SKIP_TAGS_REGEX tagName \<or> tagName = js ''br''")
    case True
    then show ?thesis by auto
  next
    case False
    note nf = this
    show ?thesis
    proof (cases "tagName = js ''td''")
      case True
      with nf 5(1) show ?thesis by (metis append.assoc process_elem_Element)
    next
      case False
      from nf False 5(2) [OF _ _ _ refl refl]
      obtain s where "process (Some tagName) children
          (if BLOCK_TAGS_REGEX tagName \<and> \<not> empty_or_ends_newline acc then acc @ [0x0A] else acc) =
          (if BLOCK_TAGS_REGEX tagName \<and> \<not> empty_or_ends_newline acc then acc @ [0x0A] else acc) @ s"
        by auto
      with nf False show ?thesis
        by (auto simp: Let_def)
    qed
  qed
qed simp_all


subsection \<open>Line breaks from br\<close>

lemma not_skip_br: "\<not> SKIP_TAGS_REGEX (js ''br'')"
  by (simp add: SKIP_TAGS_REGEX_def js_def to_lower_def is_upper_def)

lemma process_elem_br: "process_elem p (Element (js ''br'') attribs children) t = t @ [0x0A]"
  by (simp add: not_skip_br)

text \<open>
  Claim C10. A \<open>br\<close> element appends exactly one line break to the accumulated text,
  whatever that text ends in and whatever the element holds: a run of \<open>n\<close> consecutive
  \<open>br\<close> elements turns the text \<open>acc\<close> into \<open>acc\<close> followed by \<open>n\<close> line breaks, and the
  traversal of the elements after the run goes on from that text.
\<close>

theorem br_run:
  "process_elem parent (Element (js ''br'') attribs children) acc = acc @ [0x0A] \<and>
   process parent (replicate n (Element (js ''br'') attribs children)) acc = acc @ replicate n 0x0A \<and>
   process parent (replicate n (Element (js ''br'') attribs children) @ elems) acc =
     process parent elems (acc @ replicate n 0x0A)"
proof -
  have run: "process parent (replicate n (Element (js ''br'') attribs children) @ es) t =
      process parent es (t @ replicate n 0x0A)" for es t
  proof (induction n arbitrary: t)
    case 0
    show ?case by simp
  next
    case (Suc n)
    have "process parent (replicate (Suc n) (Element (js ''br'') attribs children) @ es) t =
        process parent (replicate n (Element (js ''br'') attribs children) @ es) (t @ [0x0A])"
      by (simp add: process_elem_br del: process_elem.simps)
    also have "\<dots> = process parent es ((t @ [0x0A]) @ replicate n 0x0A)"
      by (rule Suc.IH)
    finally show ?case
      by (simp add: replicate_app_Cons_same)
  qed
  from run [of "[]" acc] run [of elems acc] show ?thesis
    by (simp add: process_elem_br del: process_elem.simps)
qed

theorem br_run_witness:
  "process None (replicate 3 (Element (js ''br'') [] [])) (js ''a'' @ [0x0A]) =
     js ''a'' @ [0x0A, 0x0A, 0x0A, 0x0A] \<and>
   accumulated (load_tags br_pair_doc) = js ''a'' @ [0x0A, 0x0A, 0x0A] @ js ''b'' @ [0x0A] \<and>
   htmlToText parser_excerpt (Cheerio (load_tags br_pair_doc)) = js ''a'' @ [0x0A, 0x0A, 0x0A] @ js ''b''"
  using br_run [of None "[]" "[]" "js ''a'' @ [0x0A]" 3 "[]"]
  by (simp add: br_pair_doc_def doc_defs text_defs numeral_3_eq_3)

subsection \<open>The table of two cells\<close>

text \<open>
  Claim C4, amended. For the markup \<open><table><tr><td>A</td><td>B</td></tr></table>\<close>, in
  either parse, the result is exactly \<open>A\<close>, tab, \<open>B\<close>: the tab after the second cell and
  the line break after the row are at the end and are trimmed away.
\<close>

theorem table_text:
  "htmlToText parser_excerpt (Html table_markup) = [0x41, 0x09, 0x42] \<and>
   htmlToText parser_excerpt (Cheerio (load_tags table_plain)) = [0x41, 0x09, 0x42]"
proof
  have "table_markup \<noteq> []"
    by (simp add: table_markup_def js_def)
  then show "htmlToText parser_excerpt (Html table_markup) = [0x41, 0x09, 0x42]"
    by (simp add: parser_excerpt_def table_html5_def table_row_def doc_defs text_defs)
  show "htmlToText parser_excerpt (Cheerio (load_tags table_plain)) = [0x41, 0x09, 0x42]"
    by (simp add: table_plain_def table_row_def doc_defs text_defs)
qed

text \<open>The result does not hold \<open>A\<close>, tab, \<open>B\<close> followed by a line break.\<close>

theorem table_text_no_line_break:
  "\<not> sublist [0x41, 0x09, 0x42, 0x0A] (htmlToText parser_excerpt (Html table_markup))"
proof
  assume "sublist [0x41, 0x09, 0x42, 0x0A] (htmlToText parser_excerpt (Html table_markup))"
  then have "length [0x41, 0x09, 0x42, 0x0A :: jschar]
      \<le> length (htmlToText parser_excerpt (Html table_markup))"
    by (rule sublist_length_le)
  moreover have "table_markup \<noteq> []"
    by (simp add: table_markup_def js_def)
  ultimately show False
    by (simp add: parser_excerpt_def table_html5_def table_row_def doc_defs text_defs)
qed

subsection \<open>Text nodes\<close>

lemma reached_at_split:
  "(q, d, b) \<in> set (reached_at p ns t) \<Longrightarrow> \<exists>after. process p ns t = b @ chunk q b d @ after"
  "(q, d, b) \<in> set (reached_at_elem p n t) \<Longrightarrow> \<exists>after. process_elem p n t = b @ chunk q b d @ after"
proof (induction p ns t and p n t rule: process_process_elem.induct)
  case (1 parent acc)
  then show ?case by simp
next
  case (2 parent elem elems acc)
  from 2(3) consider "(q, d, b) \<in> set (reached_at_elem parent elem acc)"
    | "(q, d, b) \<in> set (reached_at parent elems (process_elem parent elem acc))"
    by auto
  then show ?case
  proof cases
    case 1
    with 2(1) obtain a where "process_elem parent elem acc = b @ chunk q b d @ a"
      by blast
    moreover obtain s where "process parent elems (process_elem parent elem acc) =
        process_elem parent elem acc @ s"
      using process_extends(1) by blast
    ultimately have "process parent (elem # elems) acc = b @ chunk q b d @ (a @ s)"
      by simp
    then show ?thesis by blast
  next
    case 2
    with "2.IH"(2) show ?thesis by simp
  qed
next
  case (3 parent d' acc)
  then have "process_elem parent (Text d') acc = b @ chunk q b d @ []"
    by simp
  then show ?case by blast
next
  case (4 parent d' acc)
  then show ?case by simp
next
  case (5 parent tagName attribs children acc)
  from 5(3) have nf: "\<not> SKIP_TAGS_REGEX tagName" "tagName \<noteq> js ''br''"
    by (auto split: if_splits)
  show ?case
  proof (cases "tagName = js ''td''")
    case True
    with nf 5(3) have "(q, d, b) \<in> set (reached_at (Some tagName) children acc)"
      by simp
    with nf True 5(1) obtain a where "process (Some tagName) children acc = b @ chunk q b d @ a"
      by blast
    with nf True have "process_elem parent (Element tagName attribs children) acc =
        b @ chunk q b d @ (a @ [0x09])"
      by simp
    then show ?thesis by blast
  next
    case False
    define t1 where "t1 = (if BLOCK_TAGS_REGEX tagName \<and> \<not> empty_or_ends_newline acc
        then acc @ [0x0A] else acc)"
    from nf False 5(3) have "(q, d, b) \<in> set (reached_at (Some tagName) children t1)"
      by (simp add: t1_def)
    with nf False 5(2) [OF _ _ _ refl refl]
    obtain a where ba: "process (Some tagName) children t1 = b @ chunk q b d @ a"
      unfolding t1_def by blast
    from nf False have "process_elem parent (Element tagName attribs children) acc =
        (if BLOCK_TAGS_REGEX tagName \<and> \<not> ends_newline (process (Some tagName) children t1)
         then process (Some tagName) children t1 @ [0x0A] else process (Some tagName) children t1)"
      by (simp add: Let_def t1_def)
    with ba have "process_elem parent (Element tagName attribs children) acc = b @ chunk q b d @ a \<or>
        process_elem parent (Element tagName attribs children) acc = b @ chunk q b d @ (a @ [0x0A])"
      by (simp split: if_splits)
    then show ?thesis by blast
  qed
next
  case (6 parent children acc)
  then show ?case by simp
qed

text \<open>
  Claim C3, amended. For every text node the traversal reaches, with \<open>before\<close> the text
  accumulated when it is reached, the accumulated text (which is returned trimmed) is
  \<open>before\<close>, then the node's contribution, then what is appended later. The contribution
  is the character data as it is when the parent's tag name is \<open>pre\<close>, and the
  white-space-collapsed data otherwise; in both cases it is without its leading space
  when it has one and \<open>before\<close> is empty or ends in white space.
\<close>

theorem text_node_emitted:
  assumes "(parent, d, before) \<in> set (reached_at None (start_nodes dollar) [])"
  shows "htmlToText cheerio_load (Cheerio dollar) = trim (accumulated dollar) \<and>
    (\<exists>after.
      accumulated dollar = before @
        (let c = (if parent = Some (js ''pre'') then d else collapse d)
         in if starts_space c \<and> empty_or_ends_space before then drop 1 c else c) @ after)"
  using reached_at_split(1) [OF assms]
  by (simp add: accumulated_def chunk_def compr_def htmlToText_def)

theorem text_node_emitted_witness:
  "reached_at None (start_nodes (load_tags pre_mix_doc)) [] =
     [(Some (js ''pre''), js ''a  b'', []),
      (Some (js ''i''), js ''x'', js ''a  b''),
      (Some (js ''pre''), js '' c  d'', js ''a  bx''),
      (Some (js ''p''), js '' e  f'', js ''a  bx c  d'' @ [0x0A])] \<and>
   accumulated (load_tags pre_mix_doc) = js ''a  bx c  d'' @ [0x0A] @ js ''e f'' @ [0x0A] \<and>
   htmlToText parser_excerpt (Cheerio (load_tags pre_mix_doc)) = js ''a  bx c  d'' @ [0x0A] @ js ''e f''"
  using text_node_emitted [of "Some (js ''pre'')" "js '' c  d''" "js ''a  bx''" "load_tags pre_mix_doc" parser_excerpt]
    text_node_emitted [of "Some (js ''p'')" "js '' e  f''" "js ''a  bx c  d'' @ [0x0A]" "load_tags pre_mix_doc" parser_excerpt]
  by (simp add: pre_mix_doc_def doc_defs text_defs)

text \<open>
  In \<open><div>x</div><pre> a</pre>\<close> the text node of the \<open>pre\<close> element is reached when the
  accumulated text ends in a line break, and loses its leading space: its data does not
  occur in the result.
\<close>

theorem pre_text_loses_leading_space:
  "reached_at None (start_nodes (load_tags pre_doc)) [] =
     [(Some (js ''div''), js ''x'', []), (Some (js ''pre''), js '' a'', js ''x'' @ [0x0A])] \<and>
   accumulated (load_tags pre_doc) = js ''x'' @ [0x0A] @ js ''a'' @ [0x0A] \<and>
   htmlToText parser_excerpt (Cheerio (load_tags pre_doc)) = js ''x'' @ [0x0A] @ js ''a'' \<and>
   \<not> sublist (js '' a'') (htmlToText parser_excerpt (Cheerio (load_tags pre_doc)))"
  by (simp add: pre_doc_def doc_defs text_defs sublist_code)

subsection \<open>Tag names of selected elements\<close>

lemma by_tag_names:
  "set (tag_names_list (by_tag t n)) \<subseteq> set (tag_names n)"
  "set (tag_names_list (by_tag_list t ns)) \<subseteq> set (tag_names_list ns)"
proof (induction t n and t ns rule: by_tag_by_tag_list.induct)
  case (3 t tagName attribs children)
  have "tag_names_list (xs @ ys) = tag_names_list xs @ tag_names_list ys" for xs ys
    by (induction xs) simp_all
  with 3 show ?case by auto
next
  case (6 t n ns)
  have "tag_names_list (xs @ ys) = tag_names_list xs @ tag_names_list ys" for xs ys
    by (induction xs) simp_all
  with 6 show ?case by auto
qed simp_all

lemma start_nodes_names:
  "set (tag_names_list (start_nodes (load_tags doc))) \<subseteq> set (tag_names doc)"
  using by_tag_names(1) [of "js ''body''" doc]
  by (simp add: start_nodes_def load_tags_def Let_def)

subsection \<open>Line breaks\<close>

lemma collapse_spaces: "x \<in> set (collapse d) \<Longrightarrow> is_space x \<Longrightarrow> x = 0x20"
proof (induction d rule: collapse.induct)
  case 1
  then show ?case by simp
next
  case (2 c cs)
  then show ?case by (auto split: if_splits)
qed

lemma is_space_newline: "is_space 0x0A"
  by (simp add: is_space_def)

lemma collapse_no_newline: "0x0A \<notin> set (collapse d)"
  using collapse_spaces [of "0x0A" d] by (auto simp: is_space_newline)

lemma chunk_no_newline: "p \<noteq> Some (js ''pre'') \<Longrightarrow> 0x0A \<notin> set (chunk p t d)"
  using collapse_no_newline [of d]
  by (auto simp: chunk_def compr_def Let_def dest: in_set_dropD)

lemma pair_append_text:
  "\<not> sublist [a, a] t \<Longrightarrow> a \<notin> set s \<Longrightarrow> \<not> sublist [a, a] (t @ s)"
proof (induction t)
  case Nil
  then show ?case using set_mono_sublist [of "[a, a]" s] by auto
next
  case (Cons x xs)
  from Cons.prems(1) have nx: "\<not> sublist [a, a] xs" and np: "\<not> prefix [a, a] (x # xs)"
    by (simp_all add: sublist_Cons_right)
  with Cons have "\<not> sublist [a, a] (xs @ s)" by simp
  moreover have "\<not> prefix [a, a] (x # xs @ s)"
  proof (cases xs)
    case Nil
    with Cons.prems(2) show ?thesis by (cases s) auto
  next
    case (Cons y ys)
    with np show ?thesis by auto
  qed
  ultimately show ?case by (simp add: sublist_Cons_right)
qed

lemma pair_append_single:
  "\<not> sublist [a, a] t \<Longrightarrow> t = [] \<or> last t \<noteq> a \<Longrightarrow> \<not> sublist [a, a] (t @ [a])"
proof (induction t)
  case Nil
  then show ?case by (simp add: sublist_Cons_right)
next
  case (Cons x xs)
  from Cons.prems(1) have nx: "\<not> sublist [a, a] xs" and np: "\<not> prefix [a, a] (x # xs)"
    by (simp_all add: sublist_Cons_right)
  from Cons.prems(2) have "xs = [] \<or> last xs \<noteq> a" by (auto split: if_splits)
  with Cons.IH nx have "\<not> sublist [a, a] (xs @ [a])" by simp
  moreover have "\<not> prefix [a, a] (x # xs @ [a])"
  proof (cases xs)
    case Nil
    with Cons.prems(2) show ?thesis by auto
  next
    case (Cons y ys)
    with np show ?thesis by auto
  qed
  ultimately show ?case by (simp add: sublist_Cons_right)
qed

lemma block_pre: "BLOCK_TAGS_REGEX (js ''pre'')"
  by (simp add: BLOCK_TAGS_REGEX_def js_def to_lower_def is_upper_def)

lemma process_no_blank:
  "p \<noteq> Some (js ''pre'') \<Longrightarrow> js ''pre'' \<notin> set (tag_names_list ns) \<Longrightarrow>
   js ''br'' \<notin> set (tag_names_list ns) \<Longrightarrow> \<not> sublist [0x0A, 0x0A] t \<Longrightarrow>
   \<not> sublist [0x0A, 0x0A] (process p ns t)"
  "p \<noteq> Some (js ''pre'') \<Longrightarrow> js ''pre'' \<notin> set (tag_names n) \<Longrightarrow>
   js ''br'' \<notin> set (tag_names n) \<Longrightarrow> \<not> sublist [0x0A, 0x0A] t \<Longrightarrow>
   \<not> sublist [0x0A, 0x0A] (process_elem p n t)"
proof (induction p ns t and p n t rule: process_process_elem.induct)
  case (1 parent acc)
  then show ?case by simp
next
  case (2 parent elem elems acc)
  then show ?case by simp
next
  case (3 parent d acc)
  then show ?case by (simp add: pair_append_text chunk_no_newline)
next
  case (4 parent d acc)
  then show ?case by simp
next
  case (5 parent tagName attribs children acc)
  from 5(4,5) have tn: "tagName \<noteq> js ''pre''" "tagName \<noteq> js ''br''"
    and ch: "js ''pre'' \<notin> set (tag_names_list children)" "js ''br'' \<notin> set (tag_names_list children)"
    by auto
  show ?case
  proof (cases "SKIP_TAGS_REGEX tagName")
    case True
    with 5(6) show ?thesis by simp
  next
    case ns: False
    show ?thesis
    proof (cases "tagName = js ''td''")
      case True
      with ns tn ch 5(1) 5(6) have "\<not> sublist [0x0A, 0x0A] (process (Some tagName) children acc)"
        by simp
      then have "\<not> sublist [0x0A, 0x0A] (process (Some tagName) children acc @ [0x09])"
        by (rule pair_append_text) simp
      with ns tn True show ?thesis by simp
    next
      case False
      define t1 where "t1 = (if BLOCK_TAGS_REGEX tagName \<and> \<not> empty_or_ends_newline acc
          then acc @ [0x0A] else acc)"
      have "\<not> sublist [0x0A, 0x0A] t1"
        using 5(6) by (simp add: t1_def pair_append_single empty_or_ends_newline_def)
      with ns tn False ch 5(2) [OF _ _ _ refl refl]
      have t2: "\<not> sublist [0x0A, 0x0A] (process (Some tagName) children t1)"
        unfolding t1_def by simp
      from ns tn False have "process_elem parent (Element tagName attribs children) acc =
          (if BLOCK_TAGS_REGEX tagName \<and> \<not> ends_newline (process (Some tagName) children t1)
           then process (Some tagName) children t1 @ [0x0A] else process (Some tagName) children t1)"
        by (simp add: Let_def t1_def)
      with t2 show ?thesis
        by (simp add: pair_append_single ends_newline_def)
    qed
  qed
next
  case (6 parent children acc)
  then show ?case by simp
qed

lemma sublist_trim: "sublist (trim t) t"
proof -
  have "sublist (rev (dropWhile is_space (rev (dropWhile is_space t)))) (dropWhile is_space t)"
    by (simp add: sublist_rev_left)
  then show ?thesis
    unfolding trim_def using sublist_dropWhile sublist_order.order_trans by blast
qed

text \<open>
  Claim C5. For every document without \<open>pre\<close> and without \<open>br\<close> elements (every text node
  is then compressed, and holds no line break), the result never holds two consecutive
  line breaks: a block boundary adds a line break only where the accumulated text does
  not end in one.
\<close>

theorem no_blank_lines:
  assumes "js ''pre'' \<notin> set (tag_names doc)" and "js ''br'' \<notin> set (tag_names doc)"
  shows "\<not> sublist [0x0A, 0x0A] (htmlToText cheerio_load (Cheerio (load_tags doc)))"
proof -
  from assms start_nodes_names [of doc]
  have "js ''pre'' \<notin> set (tag_names_list (start_nodes (load_tags doc)))"
    and "js ''br'' \<notin> set (tag_names_list (start_nodes (load_tags doc)))"
    by auto
  then have "\<not> sublist [0x0A, 0x0A] (accumulated (load_tags doc))"
    unfolding accumulated_def by (intro process_no_blank(1)) simp_all
  moreover have "sublist (trim (accumulated (load_tags doc))) (accumulated (load_tags doc))"
    by (rule sublist_trim)
  ultimately have "\<not> sublist [0x0A, 0x0A] (trim (accumulated (load_tags doc)))"
    using sublist_order.order_trans by blast
  then show ?thesis
    by (simp add: htmlToText_def)
qed

theorem no_blank_lines_witness:
  "js ''pre'' \<notin> set (tag_names nested_doc) \<and> js ''br'' \<notin> set (tag_names nested_doc) \<and>
   htmlToText parser_excerpt (Cheerio (load_tags nested_doc)) = js ''a'' @ [0x0A] @ js ''b'' \<and>
   \<not> sublist [0x0A, 0x0A] (htmlToText parser_excerpt (Cheerio (load_tags nested_doc)))"
  using no_blank_lines [of nested_doc parser_excerpt]
  by (simp add: nested_doc_def doc_defs text_defs)


subsection \<open>Compression of white space across text nodes\<close>

lemma is_space_space: "is_space 0x20"
  by (simp add: is_space_def)

lemma scan_True: "scan True xs = scan False (dropWhile is_space xs)"
  by (induction xs) simp_all

lemma collapse_scan: "collapse xs = scan False xs"
  by (induction xs rule: collapse.induct) (simp_all add: scan_True)

lemma scan_append:
  "scan b (xs @ ys) = scan b xs @ scan (if xs = [] then b else is_space (last xs)) ys"
  by (induction xs arbitrary: b) simp_all

lemma scan_True_drop: "scan True ys = drop_space (scan False ys)"
  by (cases ys) (auto simp: drop_space_def starts_space_def is_space_space)

lemma scan_False_Nil: "scan False xs = [] \<longleftrightarrow> xs = []"
  by (cases xs) simp_all

lemma last_scan:
  "xs \<noteq> [] \<Longrightarrow> is_space (last (scan False xs)) \<longleftrightarrow> is_space (last xs)"
proof (induction xs rule: rev_induct)
  case Nil
  then show ?case by simp
next
  case (snoc x ys)
  show ?case
  proof (cases "ys = []")
    case True
    then show ?thesis by (simp add: is_space_space)
  next
    case False
    with snoc.IH have ih: "is_space (last (scan False ys)) \<longleftrightarrow> is_space (last ys)"
      by simp
    from False have ne: "scan False ys \<noteq> []"
      by (simp add: scan_False_Nil)
    from False have "scan False (ys @ [x]) = scan False ys @ scan (is_space (last ys)) [x]"
      by (simp add: scan_append)
    with ih ne show ?thesis
      by (auto simp: is_space_space)
  qed
qed

lemma drop_space_append: "xs \<noteq> [] \<Longrightarrow> drop_space (xs @ ys) = drop_space xs @ ys"
  by (cases xs) (simp_all add: drop_space_def starts_space_def)

lemma drop_space_end:
  "xs \<noteq> [] \<Longrightarrow> empty_or_ends_space (drop_space xs) \<longleftrightarrow> is_space (last xs)"
proof (cases xs)
  case Nil
  assume "xs \<noteq> []"
  with Nil show ?thesis by simp
next
  case (Cons x xs')
  then show ?thesis
    by (cases xs') (auto simp: drop_space_def starts_space_def empty_or_ends_space_def is_space_space)
qed

lemma chunk_None: "chunk None t d =
    (if empty_or_ends_space t then drop_space (scan False d) else scan False d)"
  by (simp add: chunk_def compr_def collapse_scan drop_space_def js_def)

lemma step_collapse:
  "drop_space (collapse D) @ chunk None (drop_space (collapse D)) d = drop_space (collapse (D @ d))"
proof (cases "D = []")
  case True
  then show ?thesis
    by (simp add: chunk_None collapse_scan drop_space_def starts_space_def empty_or_ends_space_def)
next
  case False
  then have ne: "scan False D \<noteq> []"
    by (simp add: scan_False_Nil)
  from False have "empty_or_ends_space (drop_space (scan False D)) \<longleftrightarrow> is_space (last D)"
    by (simp add: drop_space_end ne last_scan)
  then have "chunk None (drop_space (scan False D)) d = scan (is_space (last D)) d"
    by (simp add: chunk_None scan_True_drop)
  with False ne show ?thesis
    by (simp add: collapse_scan scan_append drop_space_append)
qed

lemma trim_drop_space: "trim (drop_space s) = trim s"
  by (cases s) (simp_all add: trim_def drop_space_def starts_space_def is_space_space)


lemma foldl_chunks:
  "foldl (\<lambda>t d. t @ chunk None t d) (drop_space (collapse D)) ds =
     drop_space (collapse (D @ concat ds))"
proof (induction ds arbitrary: D)
  case Nil
  show ?case by simp
next
  case (Cons d ds)
  have "foldl (\<lambda>t d. t @ chunk None t d) (drop_space (collapse D)) (d # ds) =
      foldl (\<lambda>t d. t @ chunk None t d) (drop_space (collapse (D @ d))) ds"
    by (simp add: step_collapse)
  also have "\<dots> = drop_space (collapse ((D @ d) @ concat ds))"
    by (rule Cons.IH)
  finally show ?case by simp
qed

lemma process_inline:
  "p \<noteq> Some (js ''pre'') \<Longrightarrow> \<forall>x \<in> set (tag_names_list ns). plain_tag x \<Longrightarrow>
   process p ns t = foldl (\<lambda>t d. t @ chunk None t d) t (text_data_list ns)"
  "p \<noteq> Some (js ''pre'') \<Longrightarrow> \<forall>x \<in> set (tag_names n). plain_tag x \<Longrightarrow>
   process_elem p n t = foldl (\<lambda>t d. t @ chunk None t d) t (text_data n)"
proof (induction p ns t and p n t rule: process_process_elem.induct)
  case (1 parent acc)
  then show ?case by simp
next
  case (2 parent elem elems acc)
  then show ?case by simp
next
  case (3 parent d acc)
  then show ?case by (simp add: chunk_def compr_def)
next
  case (4 parent d acc)
  then show ?case by simp
next
  case (5 parent tagName attribs children acc)
  from 5(4) have it: "plain_tag tagName" and ch: "\<forall>x \<in> set (tag_names_list children). plain_tag x"
    by simp_all
  from it have np: "Some tagName \<noteq> Some (js ''pre'')"
    using block_pre by (auto simp: plain_tag_def)
  from it have "process_elem parent (Element tagName attribs children) acc =
      process (Some tagName) children acc"
    by (simp add: plain_tag_def)
  also from it have "\<dots> = foldl (\<lambda>t d. t @ chunk None t d) acc (text_data_list children)"
    using 5(2) [OF _ _ _ refl refl np ch] by (simp add: plain_tag_def)
  finally show ?case by simp
next
  case (6 parent children acc)
  then show ?case by simp
qed


text \<open>
  Claim C6, amended. For every document in which every element has a plain tag (none in
  the block set, none in the skip set, no \<open>br\<close> and no \<open>td\<close>), the result is the trimmed
  white-space-collapsed concatenation of the character data of the text nodes, in
  document order, of the part that is converted: the \<open>body\<close> elements, or the whole
  document when it has none.
\<close>

theorem inline_text_collapsed:
  assumes "\<forall>x \<in> set (tag_names doc).
      \<not> BLOCK_TAGS_REGEX x \<and> \<not> SKIP_TAGS_REGEX x \<and> x \<noteq> js ''br'' \<and> x \<noteq> js ''td''"
  shows "htmlToText cheerio_load (Cheerio (load_tags doc)) =
      trim (collapse (concat (text_data_list (start_nodes (load_tags doc)))))"
proof -
  from assms start_nodes_names [of doc]
  have "\<forall>x \<in> set (tag_names_list (start_nodes (load_tags doc))). plain_tag x"
    by (auto simp: plain_tag_def)
  then have "accumulated (load_tags doc) =
      foldl (\<lambda>t d. t @ chunk None t d) [] (text_data_list (start_nodes (load_tags doc)))"
    unfolding accumulated_def by (intro process_inline(1)) simp_all
  also have "\<dots> = drop_space (collapse ([] @ concat (text_data_list (start_nodes (load_tags doc)))))"
    using foldl_chunks [of "[]"] by (simp add: drop_space_def starts_space_def)
  finally show ?thesis
    by (simp add: htmlToText_def trim_drop_space)
qed

theorem inline_text_collapsed_witness:
  "tag_names inline_doc =
     [js ''html'', js ''head'', js ''title'', js ''body'', js ''span'', js ''b''] \<and>
   text_data_list (start_nodes (load_tags inline_doc)) = [js '' a '', js '' b''] \<and>
   htmlToText parser_excerpt (Cheerio (load_tags inline_doc)) = js ''a b''"
  using inline_text_collapsed [of inline_doc parser_excerpt]
  by (simp add: inline_doc_def doc_defs text_defs)

text \<open>
  The tag \<open>br\<close> is in neither set, and its line break is in the result: for \<open>a<br>b\<close> the
  result is not the collapsed concatenation \<open>ab\<close>.
\<close>

theorem br_breaks_concatenation:
  "tag_names br_doc = [js ''br''] \<and>
   \<not> BLOCK_TAGS_REGEX (js ''br'') \<and> \<not> SKIP_TAGS_REGEX (js ''br'') \<and>
   htmlToText parser_excerpt (Cheerio (load_tags br_doc)) = js ''a'' @ [0x0A] @ js ''b'' \<and>
   collapse (concat (text_data br_doc)) = js ''ab''"
  by (simp add: br_doc_def doc_defs text_defs)

end
